theory Spec2Isabelle
  imports Main "HOL-Library.AList" "HOL-Library.Multiset" "HOL-Library.Sublist"
begin

section \<open>Text primitives\<close>

text \<open>
  A post is a Python \<open>str\<close>. It is modelled as a \<open>string\<close> whose characters are the
  code points 0..255; the character classes below are the ones CPython's \<open>str\<close> and
  \<open>re\<close> use on that range.
\<close>

definition code_point :: "char \<Rightarrow> nat" where
  "code_point c = of_char c"

text \<open>\<open>str.isspace\<close>, which is also \<open>\s\<close> of \<open>re\<close> and the separator set of
  \<open>str.split()\<close> and \<open>str.strip()\<close>.\<close>

definition isspace :: "char \<Rightarrow> bool" where
  "isspace c =
     (let n = code_point c
      in (9 \<le> n \<and> n \<le> 13) \<or> (28 \<le> n \<and> n \<le> 32) \<or> n = 133 \<or> n = 160)"

text \<open>\<open>\d\<close> of \<open>re\<close>.\<close>

definition isdigit :: "char \<Rightarrow> bool" where
  "isdigit c = (let n = code_point c in 48 \<le> n \<and> n \<le> 57)"

text \<open>\<open>\w\<close> of \<open>re\<close>: alphanumeric characters and the underscore.\<close>

definition isword :: "char \<Rightarrow> bool" where
  "isword c =
     (let n = code_point c
      in (48 \<le> n \<and> n \<le> 57) \<or> (65 \<le> n \<and> n \<le> 90) \<or> n = 95 \<or> (97 \<le> n \<and> n \<le> 122)
         \<or> n = 170 \<or> n = 178 \<or> n = 179 \<or> n = 181 \<or> n = 185 \<or> n = 186
         \<or> (188 \<le> n \<and> n \<le> 190) \<or> (192 \<le> n \<and> n \<le> 214) \<or> (216 \<le> n \<and> n \<le> 246)
         \<or> 248 \<le> n)"

text \<open>\<open>post.split()\<close>: the maximal runs of non-whitespace characters, in order.\<close>

fun split_acc :: "string \<Rightarrow> string \<Rightarrow> string list" where
  "split_acc cur [] = (if cur = [] then [] else [cur])"
| "split_acc cur (c # cs) =
     (if isspace c then (if cur = [] then split_acc [] cs else cur # split_acc [] cs)
      else split_acc (cur @ [c]) cs)"

definition py_split :: "string \<Rightarrow> string list" where
  "py_split s = split_acc [] s"

text \<open>\<open>word.strip(chars)\<close> removes the characters of \<open>chars\<close> from both ends;
  \<open>s.strip()\<close> removes whitespace from both ends.\<close>

definition strip_where :: "(char \<Rightarrow> bool) \<Rightarrow> string \<Rightarrow> string" where
  "strip_where P s = rev (dropWhile P (rev (dropWhile P s)))"

definition py_strip_chars :: "string \<Rightarrow> string \<Rightarrow> string" where
  "py_strip_chars chars s = strip_where (\<lambda>c. c \<in> set chars) s"

definition py_strip :: "string \<Rightarrow> string" where
  "py_strip s = strip_where isspace s"

section \<open>The regular expressions of \<open>_analyze_post\<close>\<close>

text \<open>
  The fragment of \<open>re\<close> that the three patterns use: literals, \<open>\b\<close>, greedy bounded and
  unbounded repetition of a character set, sequence, alternation and capture groups.
  A match state is the character before the current position, the text still to read,
  and the groups captured so far. \<open>rmatch\<close> lists the states in which a match of the
  expression can end, in the order in which a backtracking matcher tries them: the
  head of the list is the match that \<open>re\<close> reports.
\<close>

datatype cset_item = One char | Range char char | Space | Digit

fun in_item :: "cset_item \<Rightarrow> char \<Rightarrow> bool" where
  "in_item (One c) x = (x = c)"
| "in_item (Range a b) x = (code_point a \<le> code_point x \<and> code_point x \<le> code_point b)"
| "in_item Space x = isspace x"
| "in_item Digit x = isdigit x"

definition in_cset :: "cset_item list \<Rightarrow> char \<Rightarrow> bool" where
  "in_cset items x = list_ex (\<lambda>i. in_item i x) items"

datatype regex =
    Lit string
  | WordBoundary
  | Repeat "cset_item list" nat "nat option"
  | Seq regex regex
  | Alt regex regex
  | Group nat regex

type_synonym groups = "(nat \<times> string) list"
type_synonym mstate = "char option \<times> string \<times> groups"

fun lit_match :: "string \<Rightarrow> char option \<Rightarrow> string \<Rightarrow> (char option \<times> string) option" where
  "lit_match [] p s = Some (p, s)"
| "lit_match (c # cs) p [] = None"
| "lit_match (c # cs) p (x # xs) = (if x = c then lit_match cs (Some x) xs else None)"

text \<open>Greedy repetition \<open>{lo,hi}\<close> (\<open>hi = None\<close> for \<open>+\<close>): the longest run first, then
  each shorter one down to \<open>lo\<close> characters.\<close>

fun rep_match ::
  "(char \<Rightarrow> bool) \<Rightarrow> nat \<Rightarrow> nat option \<Rightarrow> char option \<Rightarrow> string \<Rightarrow> (char option \<times> string) list" where
  "rep_match P lo hi p [] = (if lo = 0 then [(p, [])] else [])"
| "rep_match P lo hi p (x # xs) =
     (if P x \<and> hi \<noteq> Some 0
      then rep_match P (lo - 1) (map_option (\<lambda>h. h - 1) hi) (Some x) xs else [])
     @ (if lo = 0 then [(p, x # xs)] else [])"

definition at_boundary :: "char option \<Rightarrow> string \<Rightarrow> bool" where
  "at_boundary p s =
     ((case p of None \<Rightarrow> False | Some c \<Rightarrow> isword c)
        \<noteq> (case s of [] \<Rightarrow> False | x # _ \<Rightarrow> isword x))"

fun rmatch :: "regex \<Rightarrow> mstate \<Rightarrow> mstate list" where
  "rmatch (Lit l) (p, s, g) =
     (case lit_match l p s of None \<Rightarrow> [] | Some (p', s') \<Rightarrow> [(p', s', g)])"
| "rmatch WordBoundary (p, s, g) = (if at_boundary p s then [(p, s, g)] else [])"
| "rmatch (Repeat items lo hi) (p, s, g) =
     map (\<lambda>(p', s'). (p', s', g)) (rep_match (in_cset items) lo hi p s)"
| "rmatch (Seq a b) st = concat (map (rmatch b) (rmatch a st))"
| "rmatch (Alt a b) st = rmatch a st @ rmatch b st"
| "rmatch (Group n r) (p, s, g) =
     map (\<lambda>(p', s', g'). (p', s', AList.update n (take (length s - length s') s) g'))
       (rmatch r (p, s, g))"

text \<open>
  \<open>re.findall\<close>: scan from the left; where the expression matches, keep the groups of
  the first match and go on behind it, and otherwise move one character on. None of
  the patterns below matches the empty string (\<open>patterns_consume\<close> below); for an
  empty match the scan moves one character on.
\<close>

function findall_from :: "regex \<Rightarrow> char option \<Rightarrow> string \<Rightarrow> groups list" where
  "findall_from r p s =
     (case rmatch r (p, s, []) of
        [] \<Rightarrow> (case s of [] \<Rightarrow> [] | x # xs \<Rightarrow> findall_from r (Some x) xs)
      | (p', s', g) # _ \<Rightarrow>
          (if length s' < length s then g # findall_from r p' s'
           else (case s of [] \<Rightarrow> [g] | x # xs \<Rightarrow> g # findall_from r (Some x) xs)))"
  by pat_completeness auto
termination
  by (relation "measure (\<lambda>(r, p, s). length s)") auto

declare findall_from.simps [simp del]

definition re_findall :: "regex \<Rightarrow> string \<Rightarrow> groups list" where
  "re_findall r s = findall_from r None s"

text \<open>The text of group \<open>n\<close> of a match (the empty string if the group took no part).\<close>

definition group :: "groups \<Rightarrow> nat \<Rightarrow> string" where
  "group g n = (case map_of g n of None \<Rightarrow> [] | Some t \<Rightarrow> t)"

text \<open>\<^verbatim>\<open>\b(located in|based in|remote|hybrid|onsite|in)\s+([a-zA-Z\s,]+)\<close>\<close>

definition location_pattern :: regex where
  "location_pattern =
     Seq WordBoundary
    (Seq (Group 1 (Alt (Lit ''located in'') (Alt (Lit ''based in'') (Alt (Lit ''remote'')
           (Alt (Lit ''hybrid'') (Alt (Lit ''onsite'') (Lit ''in'')))))))
    (Seq (Repeat [Space] 1 None)
         (Group 2 (Repeat [Range CHR ''a'' CHR ''z'', Range CHR ''A'' CHR ''Z'', Space,
                           One CHR '',''] 1 None))))"

text \<open>\<^verbatim>\<open>\$(\d{2,3}k|\d{3},\d{3})\<close>\<close>

definition salary_pattern :: regex where
  "salary_pattern =
     Seq (Lit ''$'')
         (Group 1 (Alt (Seq (Repeat [Digit] 2 (Some 3)) (Lit ''k''))
                       (Seq (Repeat [Digit] 3 (Some 3))
                            (Seq (Lit '','') (Repeat [Digit] 3 (Some 3))))))"

text \<open>\<^verbatim>\<open>\b(looking for|seeking|position|role)\s+([a-zA-Z\s]+)\b\<close>\<close>

definition title_pattern :: regex where
  "title_pattern =
     Seq WordBoundary
    (Seq (Group 1 (Alt (Lit ''looking for'') (Alt (Lit ''seeking'') (Alt (Lit ''position'')
           (Lit ''role'')))))
    (Seq (Repeat [Space] 1 None)
    (Seq (Group 2 (Repeat [Range CHR ''a'' CHR ''z'', Range CHR ''A'' CHR ''Z'', Space] 1 None))
         WordBoundary)))"

section \<open>The analyzer\<close>

text \<open>
  The fields of \<open>JobMarketAnalyzer\<close>. A \<open>dict\<close> is an association list in insertion
  order with distinct keys; counts are Python integers. Two dicts are equal in Python
  when they hold the same keys with the same values, in any order: \<open>map_of\<close> of the two
  lists is the same.
\<close>

type_synonym counter = "(string \<times> int) list"

record analyzer =
  technologies :: counter
  locations :: counter
  salary_ranges :: counter
  job_titles :: counter
  job_posts :: "string list"

text \<open>\<open>__init__\<close>\<close>

definition new_analyzer :: analyzer where
  "new_analyzer =
     \<lparr>technologies =
        [(''python'', 0), (''javascript'', 0), (''typescript'', 0), (''java'', 0),
         (''c#'', 0), (''c++'', 0), (''go'', 0), (''rust'', 0), (''ruby'', 0), (''php'', 0),
         (''swift'', 0), (''kotlin'', 0), (''scala'', 0), (''dart'', 0), (''react'', 0),
         (''angular'', 0), (''vue'', 0), (''node'', 0), (''django'', 0), (''flask'', 0),
         (''aws'', 0), (''azure'', 0), (''gcp'', 0), (''docker'', 0), (''kubernetes'', 0),
         (''sql'', 0), (''nosql'', 0), (''mongodb'', 0), (''postgresql'', 0), (''mysql'', 0)],
      locations = [], salary_ranges = [], job_titles = [], job_posts = []\<rparr>"

text \<open>The count under a key, 0 for a key that is absent (\<open>defaultdict(int)\<close>).\<close>

definition count_of :: "counter \<Rightarrow> string \<Rightarrow> int" where
  "count_of d k = (case map_of d k of None \<Rightarrow> 0 | Some c \<Rightarrow> c)"

text \<open>\<open>d[k] += 1\<close>. On \<open>technologies\<close>, a plain dict, it is only run for keys of the dict.\<close>

definition incr :: "string \<Rightarrow> counter \<Rightarrow> counter" where
  "incr k d = AList.update k (count_of d k + 1) d"

text \<open>The characters of \<^verbatim>\<open>.,/:;!@()[]{}'"\<close>\<close>

definition strip_set :: string where
  "strip_set = ''.,/:;!@()[]{}'' @ [CHR 0x27, CHR 0x22]"

definition post_words :: "string \<Rightarrow> string set" where
  "post_words post = set (map (py_strip_chars strip_set) (py_split post))"

definition location_matches :: "string \<Rightarrow> (string \<times> string) list" where
  "location_matches post = map (\<lambda>g. (group g 1, group g 2)) (re_findall location_pattern post)"

definition salary_matches :: "string \<Rightarrow> string list" where
  "salary_matches post = map (\<lambda>g. group g 1) (re_findall salary_pattern post)"

definition title_matches :: "string \<Rightarrow> (string \<times> string) list" where
  "title_matches post = map (\<lambda>g. (group g 1, group g 2)) (re_findall title_pattern post)"

text \<open>\<open>_analyze_post\<close>\<close>

definition analyze_technologies :: "string \<Rightarrow> analyzer \<Rightarrow> analyzer" where
  "analyze_technologies post a =
     (let words = post_words post
      in a\<lparr>technologies :=
             fold (\<lambda>tech d. if tech \<in> words then incr tech d else d)
               (map fst (technologies a)) (technologies a)\<rparr>)"

definition analyze_location :: "string \<Rightarrow> analyzer \<Rightarrow> analyzer" where
  "analyze_location post a =
     (case location_matches post of
        [] \<Rightarrow> a
      | m # _ \<Rightarrow> a\<lparr>locations := incr (py_strip (snd m)) (locations a)\<rparr>)"

definition analyze_salary :: "string \<Rightarrow> analyzer \<Rightarrow> analyzer" where
  "analyze_salary post a =
     (let salaries = salary_matches post
      in if salaries \<noteq> [] then a\<lparr>salary_ranges := fold incr salaries (salary_ranges a)\<rparr>
         else a)"

definition analyze_title :: "string \<Rightarrow> analyzer \<Rightarrow> analyzer" where
  "analyze_title post a =
     (case title_matches post of
        [] \<Rightarrow> a
      | m # _ \<Rightarrow> a\<lparr>job_titles := incr (py_strip (snd m)) (job_titles a)\<rparr>)"

definition analyze_post :: "string \<Rightarrow> analyzer \<Rightarrow> analyzer" where
  "analyze_post post a =
     analyze_title post (analyze_salary post (analyze_location post (analyze_technologies post a)))"

text \<open>
  The loop body shared by the four scrapers: the text of a posting is built from the
  fields read off the page (already lowercased and stripped as each scraper does),
  appended to \<open>job_posts\<close> and analyzed. Fetching and parsing the page is outside the
  model.
\<close>

datatype scraped =
    HN_comment string
  | Indeed_card string string string string
  | LinkedIn_card string string string
  | SO_listing string string "string list"

fun py_join :: "string \<Rightarrow> string list \<Rightarrow> string" where
  "py_join sep [] = []"
| "py_join sep [x] = x"
| "py_join sep (x # y # ys) = x @ sep @ py_join sep (y # ys)"

fun post_text :: "scraped \<Rightarrow> string" where
  "post_text (HN_comment text) = text"
| "post_text (Indeed_card title company location snippet) =
     title @ '' at '' @ company @ '' in '' @ location @ ''. '' @ snippet"
| "post_text (LinkedIn_card title company location) =
     title @ '' at '' @ company @ '' in '' @ location"
| "post_text (SO_listing title company tags) =
     title @ '' at '' @ company @ ''. Skills: '' @ py_join '', '' tags"

definition scrape_item :: "scraped \<Rightarrow> analyzer \<Rightarrow> analyzer" where
  "scrape_item item a =
     (let text = post_text item
      in analyze_post text (a\<lparr>job_posts := job_posts a @ [text]\<rparr>))"

section \<open>The store\<close>

text \<open>
  The five tables of \<open>_init_db\<close>, rows in insertion order. The \<open>id\<close> and \<open>timestamp\<close>
  columns are left out. The key column of the four count tables is \<open>UNIQUE\<close>:
  \<open>store_ok\<close>. Counts are taken to stay in the range of an SQLite integer.
\<close>

record store =
  db_technologies :: counter
  db_locations :: counter
  db_salaries :: counter
  db_job_titles :: counter
  db_job_posts :: "(string \<times> string) list"

definition empty_store :: store where
  "empty_store =
     \<lparr>db_technologies = [], db_locations = [], db_salaries = [], db_job_titles = [],
      db_job_posts = []\<rparr>"

definition dict_ok :: "counter \<Rightarrow> bool" where
  "dict_ok d = distinct (map fst d)"

definition store_ok :: "store \<Rightarrow> bool" where
  "store_ok st =
     (dict_ok (db_technologies st) \<and> dict_ok (db_locations st) \<and> dict_ok (db_salaries st)
      \<and> dict_ok (db_job_titles st))"

text \<open>
  \<^verbatim>\<open>INSERT OR IGNORE INTO t (name, count) VALUES (?, ?)
  ON CONFLICT(name) DO UPDATE SET count = count + excluded.count\<close>:
  the upsert clause decides a conflict on the key, so the row of an existing key has
  the new count added and a new key gets a new row.
\<close>

fun upsert_add :: "string \<Rightarrow> int \<Rightarrow> counter \<Rightarrow> counter" where
  "upsert_add k v [] = [(k, v)]"
| "upsert_add k v ((k', c) # rows) =
     (if k' = k then (k', c + v) # rows else (k', c) # upsert_add k v rows)"

datatype table = Technologies | Locations | Salaries | Job_titles

datatype statement = Upsert table string int | Insert_post string string

fun execute :: "statement \<Rightarrow> store \<Rightarrow> store" where
  "execute (Upsert Technologies k v) st = st\<lparr>db_technologies := upsert_add k v (db_technologies st)\<rparr>"
| "execute (Upsert Locations k v) st = st\<lparr>db_locations := upsert_add k v (db_locations st)\<rparr>"
| "execute (Upsert Salaries k v) st = st\<lparr>db_salaries := upsert_add k v (db_salaries st)\<rparr>"
| "execute (Upsert Job_titles k v) st = st\<lparr>db_job_titles := upsert_add k v (db_job_titles st)\<rparr>"
| "execute (Insert_post source content) st =
     st\<lparr>db_job_posts := db_job_posts st @ [(source, content)]\<rparr>"

text \<open>The statements that \<open>_update_db\<close> executes, in order.\<close>

definition update_db_statements :: "analyzer \<Rightarrow> statement list" where
  "update_db_statements a =
       map (\<lambda>(tech, count). Upsert Technologies tech count) (technologies a)
     @ map (\<lambda>(loc, count). Upsert Locations loc count) (locations a)
     @ map (\<lambda>(sal, count). Upsert Salaries sal count) (salary_ranges a)
     @ map (\<lambda>(title, count). Upsert Job_titles title count) (job_titles a)
     @ map (\<lambda>post. Insert_post ''Hacker News'' post) (job_posts a)"

text \<open>
  The failure kinds. \<open>Sqlite3_Error\<close> is the exception of the \<open>sqlite3\<close> module, which
  \<open>_update_db\<close> does not catch. \<open>PersistenceError\<close> is the kind the specification names;
  the source defines no such class.
\<close>

datatype failure = Sqlite3_Error | PersistenceError

text \<open>
  The body of the \<open>with\<close> block. \<open>fault = Some n\<close>: the store rejects the operation
  after \<open>n\<close> successful ones (the statements in order, then \<open>commit\<close>); \<open>None\<close>: it
  rejects none. A failing \<open>connect\<close> has the outcome of \<open>Some 0\<close>.
\<close>

fun run_transaction :: "nat option \<Rightarrow> statement list \<Rightarrow> store \<Rightarrow> failure + store" where
  "run_transaction fault [] st = (if fault = Some 0 then Inl Sqlite3_Error else Inr st)"
| "run_transaction fault (q # qs) st =
     (if fault = Some 0 then Inl Sqlite3_Error
      else run_transaction (map_option (\<lambda>n. n - 1) fault) qs (execute q st))"

text \<open>
  \<open>_update_db\<close>: what is raised (if anything), the analyzer and the store afterwards.
  The connection's context manager rolls the transaction back when the block raises.
\<close>

definition update_db :: "nat option \<Rightarrow> analyzer \<times> store \<Rightarrow> failure option \<times> analyzer \<times> store" where
  "update_db fault = (\<lambda>(a, st).
     case run_transaction fault (update_db_statements a) st of
       Inl e \<Rightarrow> (Some e, a, st)
     | Inr st' \<Rightarrow> (None, a, st'))"

text \<open>
  \<open>load_from_db\<close>: five queries, each followed by its assignments. An exception ends
  the \<open>try\<close> block and is swallowed: with \<open>fault = Some n\<close> only the first \<open>n\<close> queries
  are loaded.
\<close>

definition load_technologies :: "store \<Rightarrow> analyzer \<Rightarrow> analyzer" where
  "load_technologies st a =
     a\<lparr>technologies :=
         fold (\<lambda>(name, count) d. if name \<in> fst ` set d then AList.update name count d else d)
           (db_technologies st) (technologies a)\<rparr>"

definition load_locations :: "store \<Rightarrow> analyzer \<Rightarrow> analyzer" where
  "load_locations st a =
     a\<lparr>locations := fold (\<lambda>(name, count). AList.update name count) (db_locations st) (locations a)\<rparr>"

definition load_salaries :: "store \<Rightarrow> analyzer \<Rightarrow> analyzer" where
  "load_salaries st a =
     a\<lparr>salary_ranges :=
         fold (\<lambda>(range, count). AList.update range count) (db_salaries st) (salary_ranges a)\<rparr>"

definition load_job_titles :: "store \<Rightarrow> analyzer \<Rightarrow> analyzer" where
  "load_job_titles st a =
     a\<lparr>job_titles :=
         fold (\<lambda>(title, count). AList.update title count) (db_job_titles st) (job_titles a)\<rparr>"

definition load_job_posts :: "store \<Rightarrow> analyzer \<Rightarrow> analyzer" where
  "load_job_posts st a = a\<lparr>job_posts := map snd (db_job_posts st)\<rparr>"

definition load_from_db :: "nat option \<Rightarrow> store \<Rightarrow> analyzer \<Rightarrow> analyzer" where
  "load_from_db fault st a =
     (let queries = [load_technologies, load_locations, load_salaries, load_job_titles,
                     load_job_posts]
      in fold (\<lambda>q. q st) (case fault of None \<Rightarrow> queries | Some n \<Rightarrow> take n queries) a)"

section \<open>Notions used to state the properties\<close>

text \<open>The least number of characters a match of an expression reads.\<close>

fun min_len :: "regex \<Rightarrow> nat" where
  "min_len (Lit l) = length l"
| "min_len WordBoundary = 0"
| "min_len (Repeat items lo hi) = lo"
| "min_len (Seq a b) = min_len a + min_len b"
| "min_len (Alt a b) = min (min_len a) (min_len b)"
| "min_len (Group n r) = min_len r"



text \<open>Analyzing a list of posts, in order, as every scraper's loop does.\<close>

definition analyze_all :: "string list \<Rightarrow> analyzer \<Rightarrow> analyzer" where
  "analyze_all posts a = fold analyze_post posts a"

text \<open>The keys that analyzing one post increments in each \<open>defaultdict\<close>.\<close>

definition location_signals :: "string \<Rightarrow> string list" where
  "location_signals post =
     (case location_matches post of [] \<Rightarrow> [] | m # _ \<Rightarrow> [py_strip (snd m)])"

definition title_signals :: "string \<Rightarrow> string list" where
  "title_signals post =
     (case title_matches post of [] \<Rightarrow> [] | m # _ \<Rightarrow> [py_strip (snd m)])"

text \<open>The three components of the outcome of \<open>update_db\<close>.\<close>

definition raised :: "failure option \<times> analyzer \<times> store \<Rightarrow> failure option" where
  "raised r = fst r"

definition analyzer_after :: "failure option \<times> analyzer \<times> store \<Rightarrow> analyzer" where
  "analyzer_after r = fst (snd r)"

definition store_after :: "failure option \<times> analyzer \<times> store \<Rightarrow> store" where
  "store_after r = snd (snd r)"

text \<open>Merging the items of a dict into the rows of a table, one upsert per item.\<close>

definition merge_counter :: "counter \<Rightarrow> counter \<Rightarrow> counter" where
  "merge_counter items rows = fold (\<lambda>(k, v). upsert_add k v) items rows"

text \<open>All counts of a counter are non-negative.\<close>

definition nonneg :: "counter \<Rightarrow> bool" where
  "nonneg d = list_all (\<lambda>(k, c). 0 \<le> c) d"

definition analyzer_nonneg :: "analyzer \<Rightarrow> bool" where
  "analyzer_nonneg a =
     (nonneg (technologies a) \<and> nonneg (locations a) \<and> nonneg (salary_ranges a)
      \<and> nonneg (job_titles a))"

definition store_nonneg :: "store \<Rightarrow> bool" where
  "store_nonneg st =
     (nonneg (db_technologies st) \<and> nonneg (db_locations st) \<and> nonneg (db_salaries st)
      \<and> nonneg (db_job_titles st))"

text \<open>No count has decreased and no key has gone: every key of \<open>d\<close> is a key of \<open>d'\<close>
  with a count at least as large.\<close>

definition grows :: "counter \<Rightarrow> counter \<Rightarrow> bool" where
  "grows d d' =
     list_all (\<lambda>k. case map_of d' k of None \<Rightarrow> False | Some c' \<Rightarrow> count_of d k \<le> c')
       (map fst d)"

definition analyzer_grows :: "analyzer \<Rightarrow> analyzer \<Rightarrow> bool" where
  "analyzer_grows a a' =
     (grows (technologies a) (technologies a') \<and> grows (locations a) (locations a')
      \<and> grows (salary_ranges a) (salary_ranges a') \<and> grows (job_titles a) (job_titles a'))"

definition store_grows :: "store \<Rightarrow> store \<Rightarrow> bool" where
  "store_grows st st' =
     (grows (db_technologies st) (db_technologies st') \<and> grows (db_locations st) (db_locations st')
      \<and> grows (db_salaries st) (db_salaries st') \<and> grows (db_job_titles st) (db_job_titles st'))"

text \<open>
  The operations of the engine within a session, on the analyzer and the store: the
  analysis of a post, and a merge (with the fault the store answers it with). After a
  merge that raised, the pair is what the caller is left with.
\<close>

datatype operation = Analyze string | Merge "nat option"

fun step :: "operation \<Rightarrow> analyzer \<times> store \<Rightarrow> analyzer \<times> store" where
  "step (Analyze post) (a, st) = (analyze_post post a, st)"
| "step (Merge fault) (a, st) = snd (update_db fault (a, st))"

definition analyzer_ok :: "analyzer \<Rightarrow> bool" where
  "analyzer_ok a =
     (dict_ok (technologies a) \<and> dict_ok (locations a) \<and> dict_ok (salary_ranges a)
      \<and> dict_ok (job_titles a))"

text \<open>A store left by earlier runs, with one technology outside the vocabulary.\<close>

definition sample_store :: store where
  "sample_store =
     \<lparr>db_technologies = [(''python'', 3), (''cobol'', 7)], db_locations = [(''austin'', 2)],
      db_salaries = [(''120k'', 1)], db_job_titles = [(''senior dev'', 4)],
      db_job_posts = [(''Hacker News'', ''python role in austin'')]\<rparr>"

section \<open>Properties\<close>

subsection \<open>Counters\<close>

lemma map_of_incr: "map_of (incr k d) = (map_of d)(k \<mapsto> count_of d k + 1)"
  by (simp add: incr_def update_conv')

lemma keys_incr: "k \<in> fst ` set d \<Longrightarrow> map fst (incr k d) = map fst d"
  by (simp add: incr_def update_keys)



lemma frame_technologies [simp]:
  "locations (analyze_technologies p a) = locations a"
  "salary_ranges (analyze_technologies p a) = salary_ranges a"
  "job_titles (analyze_technologies p a) = job_titles a"
  "job_posts (analyze_technologies p a) = job_posts a"
  by (simp_all add: analyze_technologies_def Let_def)

lemma frame_location [simp]:
  "technologies (analyze_location p a) = technologies a"
  "salary_ranges (analyze_location p a) = salary_ranges a"
  "job_titles (analyze_location p a) = job_titles a"
  "job_posts (analyze_location p a) = job_posts a"
  by (simp_all add: analyze_location_def split: list.split)

lemma frame_salary [simp]:
  "technologies (analyze_salary p a) = technologies a"
  "locations (analyze_salary p a) = locations a"
  "job_titles (analyze_salary p a) = job_titles a"
  "job_posts (analyze_salary p a) = job_posts a"
  by (simp_all add: analyze_salary_def Let_def)

lemma frame_title [simp]:
  "technologies (analyze_title p a) = technologies a"
  "locations (analyze_title p a) = locations a"
  "salary_ranges (analyze_title p a) = salary_ranges a"
  "job_posts (analyze_title p a) = job_posts a"
  by (simp_all add: analyze_title_def split: list.split)

lemma salary_ranges_analyze_post:
  "salary_ranges (analyze_post p a) = fold incr (salary_matches p) (salary_ranges a)"
  by (simp add: analyze_post_def analyze_salary_def Let_def)

lemma locations_analyze_post:
  "locations (analyze_post p a) =
     (case location_matches p of [] \<Rightarrow> locations a
      | m # _ \<Rightarrow> incr (py_strip (snd m)) (locations a))"
  by (simp add: analyze_post_def analyze_location_def split: list.split)

lemma job_titles_analyze_post:
  "job_titles (analyze_post p a) =
     (case title_matches p of [] \<Rightarrow> job_titles a
      | m # _ \<Rightarrow> incr (py_strip (snd m)) (job_titles a))"
  by (simp add: analyze_post_def analyze_title_def split: list.split)

lemma technologies_analyze_post:
  "technologies (analyze_post p a) =
     fold (\<lambda>tech d. if tech \<in> post_words p then incr tech d else d)
       (map fst (technologies a)) (technologies a)"
  by (simp add: analyze_post_def analyze_technologies_def Let_def)

lemma job_posts_analyze_post [simp]: "job_posts (analyze_post p a) = job_posts a"
  by (simp add: analyze_post_def)

lemma tech_fold:
  "set ks \<subseteq> fst ` set d \<Longrightarrow> distinct ks \<Longrightarrow>
   map fst (fold (\<lambda>tech d. if tech \<in> W then incr tech d else d) ks d) = map fst d
   \<and> map_of (fold (\<lambda>tech d. if tech \<in> W then incr tech d else d) ks d) k
       = (if k \<in> set ks \<and> k \<in> W then Some (count_of d k + 1) else map_of d k)"
proof (induction ks arbitrary: d)
  case Nil
  then show ?case by simp
next
  case (Cons t ks)
  let ?d1 = "if t \<in> W then incr t d else d"
  have keys: "map fst ?d1 = map fst d"
    using Cons.prems(1) by (simp add: keys_incr)
  then have "fst ` set ?d1 = fst ` set d"
    by (metis list.set_map)
  with Cons.prems have sub: "set ks \<subseteq> fst ` set ?d1" and dist: "distinct ks" and nt: "t \<notin> set ks"
    by auto
  note IH = Cons.IH [OF sub dist]
  have cnt: "k \<noteq> t \<Longrightarrow> count_of ?d1 k = count_of d k"
    by (simp add: count_of_def map_of_incr)
  have mo: "map_of ?d1 k = (if k = t \<and> t \<in> W then Some (count_of d k + 1) else map_of d k)"
    by (simp add: map_of_incr)
  show ?case
    using IH keys nt cnt mo by (auto simp del: fun_upd_apply)
qed

lemma technologies_closed:
  assumes "dict_ok (technologies a)"
  shows "map fst (technologies (analyze_post p a)) = map fst (technologies a)"
    and "map_of (technologies (analyze_post p a)) k =
          (case map_of (technologies a) k of None \<Rightarrow> None
           | Some c \<Rightarrow> Some (if k \<in> post_words p then c + 1 else c))"
proof -
  let ?d = "technologies a"
  have sub: "set (map fst ?d) \<subseteq> fst ` set ?d" by simp
  have dist: "distinct (map fst ?d)" using assms by (simp add: dict_ok_def)
  note tf = tech_fold [OF sub dist, of "post_words p" k]
  show "map fst (technologies (analyze_post p a)) = map fst (technologies a)"
    using tf by (simp add: technologies_analyze_post)
  have dom: "map_of ?d k = None \<longleftrightarrow> k \<notin> set (map fst ?d)"
    by (simp add: map_of_eq_None_iff)
  show "map_of (technologies (analyze_post p a)) k =
          (case map_of (technologies a) k of None \<Rightarrow> None
           | Some c \<Rightarrow> Some (if k \<in> post_words p then c + 1 else c))"
    using tf dom by (auto simp: technologies_analyze_post count_of_def split: option.splits)
qed

subsection \<open>Salary extraction\<close>

text \<open>
  C1 (as stated): the post "offering $120k or $95,000 depending on experience" yields the
  two salary signals "120k" and "95,000". It does not: the list of matches is not that
  pair, and the count under "95,000" is not incremented.
\<close>

theorem salary_two_signals_counterexample:
  "salary_matches ''offering $120k or $95,000 depending on experience'' \<noteq> [''120k'', ''95,000'']
   \<and> count_of (salary_ranges (analyze_post ''offering $120k or $95,000 depending on experience''
          new_analyzer)) ''95,000''
       \<noteq> count_of (salary_ranges new_analyzer) ''95,000'' + 1"
  by code_simp

text \<open>
  C1 (amended): for that post the salary extractor yields exactly one signal, "120k".
  Whatever the salary counter held before, afterwards it maps "120k" to its former
  count plus 1 and every other key, "95,000" among them, as before: in "$95,000" only
  two digits stand before the comma, and the grouped alternative of the pattern asks
  for three.
\<close>

theorem salary_one_signal:
  "salary_matches ''offering $120k or $95,000 depending on experience'' = [''120k'']
   \<and> map_of (salary_ranges (analyze_post ''offering $120k or $95,000 depending on experience'' a))
       = (map_of (salary_ranges a))(''120k'' \<mapsto> count_of (salary_ranges a) ''120k'' + 1)
   \<and> count_of (salary_ranges (analyze_post ''offering $120k or $95,000 depending on experience'' a))
        ''95,000'' = count_of (salary_ranges a) ''95,000''"
proof -
  have m: "salary_matches ''offering $120k or $95,000 depending on experience'' = [''120k'']"
    by code_simp
  have ne: "''95,000'' \<noteq> ''120k''" by simp
  show ?thesis
    unfolding salary_ranges_analyze_post m using ne
    by (simp add: map_of_incr count_of_def)
qed

text \<open>With three digits before the comma both figures are taken, in order.\<close>

lemma salary_both_forms:
  "salary_matches ''offering $120k or $195,000 depending on experience'' = [''120k'', ''195,000'']"
  by code_simp

subsection \<open>Technology matching\<close>

lemma strip_go: "py_strip_chars strip_set ''go'' = ''go''" by code_simp
lemma strip_golang: "py_strip_chars strip_set ''golang'' = ''golang''" by code_simp

lemma token_in_words:
  "w \<in> set (py_split post) \<Longrightarrow> py_strip_chars strip_set w \<in> post_words post"
  by (simp add: post_words_def)

text \<open>
  C3: technology matching is by whole token and capped at one increment per technology
  and post. For an analyzer whose \<open>technologies\<close> is a dict with a "go" entry: every
  technology count goes up by exactly 1 if the technology is one of the stripped
  tokens of the post, and stays as it is otherwise; a post whose only word is "golang"
  leaves the count of "go" as it is; a post with the token "go", however often, adds
  exactly 1 to it.
\<close>

theorem exact_token_capped:
  assumes "dict_ok (technologies a)" and "map_of (technologies a) ''go'' = Some c"
  shows "(\<forall>k. map_of (technologies (analyze_post post a)) k =
            (case map_of (technologies a) k of None \<Rightarrow> None
             | Some n \<Rightarrow> Some (if k \<in> post_words post then n + 1 else n)))
       \<and> (py_split post = [''golang''] \<longrightarrow>
            map_of (technologies (analyze_post post a)) ''go'' = Some c)
       \<and> (''go'' \<in> set (py_split post) \<longrightarrow>
            map_of (technologies (analyze_post post a)) ''go'' = Some (c + 1))"
proof (intro conjI allI impI)
  fix k
  show "map_of (technologies (analyze_post post a)) k =
          (case map_of (technologies a) k of None \<Rightarrow> None
           | Some n \<Rightarrow> Some (if k \<in> post_words post then n + 1 else n))"
    by (rule technologies_closed(2) [OF assms(1)])
next
  assume "py_split post = [''golang'']"
  then have "post_words post = {''golang''}"
    by (simp add: post_words_def strip_golang)
  then show "map_of (technologies (analyze_post post a)) ''go'' = Some c"
    by (simp add: technologies_closed(2) [OF assms(1)] assms(2))
next
  assume "''go'' \<in> set (py_split post)"
  then have "''go'' \<in> post_words post"
    using token_in_words [of "''go''" post] by (simp add: strip_go)
  then show "map_of (technologies (analyze_post post a)) ''go'' = Some (c + 1)"
    by (simp add: technologies_closed(2) [OF assms(1)] assms(2))
qed

theorem exact_token_capped_witness:
  "dict_ok (technologies new_analyzer) \<and> map_of (technologies new_analyzer) ''go'' = Some 0
   \<and> py_split ''golang'' = [''golang'']
   \<and> map_of (technologies (analyze_post ''golang'' new_analyzer)) ''go'' = Some 0
   \<and> ''go'' \<in> set (py_split ''go go'') \<and> py_split ''go go'' = [''go'', ''go'']
   \<and> map_of (technologies (analyze_post ''go go'' new_analyzer)) ''go'' = Some 1"
proof -
  have ok: "dict_ok (technologies new_analyzer)" by code_simp
  have go: "map_of (technologies new_analyzer) ''go'' = Some 0" by code_simp
  have s1: "py_split ''golang'' = [''golang'']" by code_simp
  have s2: "py_split ''go go'' = [''go'', ''go'']" by code_simp
  have m: "''go'' \<in> set (py_split ''go go'')" by (simp add: s2)
  from exact_token_capped [OF ok go, of "''golang''"] s1
  have r1: "map_of (technologies (analyze_post ''golang'' new_analyzer)) ''go'' = Some 0"
    by blast
  from exact_token_capped [OF ok go, of "''go go''"] m
  have "map_of (technologies (analyze_post ''go go'' new_analyzer)) ''go'' = Some (0 + 1)"
    by blast
  then have r2: "map_of (technologies (analyze_post ''go go'' new_analyzer)) ''go'' = Some 1"
    by simp
  show ?thesis using ok go s1 s2 m r1 r2 by blast
qed




subsection \<open>Location extraction\<close>

lemma lit_match_prefix: "lit_match l p s = Some (p', s') \<Longrightarrow> s = l @ s'"
proof (induction l arbitrary: p s)
  case Nil
  then show ?case by simp
next
  case (Cons c cs)
  then show ?case by (cases s) (auto split: if_splits)
qed











subsection \<open>Merging into the store\<close>

lemma map_of_upsert_add:
  "map_of (upsert_add k v rows) = (map_of rows)(k \<mapsto> (case map_of rows k of None \<Rightarrow> v | Some c \<Rightarrow> c + v))"
  by (induction rows) (auto simp: fun_eq_iff)

lemma keys_upsert_add:
  "map fst (upsert_add k v rows) = (if k \<in> set (map fst rows) then map fst rows else map fst rows @ [k])"
  by (induction rows) force+

lemma dict_ok_upsert_add: "dict_ok rows \<Longrightarrow> dict_ok (upsert_add k v rows)"
  by (simp add: dict_ok_def keys_upsert_add)

lemma map_of_merge_counter:
  "distinct (map fst items) \<Longrightarrow>
   map_of (merge_counter items rows) k =
     (case map_of items k of None \<Rightarrow> map_of rows k
      | Some v \<Rightarrow> Some (case map_of rows k of None \<Rightarrow> v | Some c \<Rightarrow> c + v))"
proof (induction items arbitrary: rows)
  case Nil
  then show ?case by (simp add: merge_counter_def)
next
  case (Cons kv items)
  obtain k0 v0 where kv: "kv = (k0, v0)" by (cases kv)
  from Cons.prems kv have d: "distinct (map fst items)" and n: "k0 \<notin> fst ` set items" by auto
  from n have none: "map_of items k0 = None" by (simp add: map_of_eq_None_iff)
  have "merge_counter (kv # items) rows = merge_counter items (upsert_add k0 v0 rows)"
    by (simp add: merge_counter_def kv)
  then show ?case
    using Cons.IH [OF d, of "upsert_add k0 v0 rows"] none
    by (auto simp: kv map_of_upsert_add split: option.splits)
qed

lemma dict_ok_merge_counter: "dict_ok rows \<Longrightarrow> dict_ok (merge_counter items rows)"
proof (induction items arbitrary: rows)
  case Nil
  then show ?case by (simp add: merge_counter_def)
next
  case (Cons kv items)
  have "merge_counter (kv # items) rows = merge_counter items (upsert_add (fst kv) (snd kv) rows)"
    by (simp add: merge_counter_def split_beta)
  then show ?case using Cons by (simp add: dict_ok_upsert_add)
qed

lemma fold_execute_upserts:
  "fold execute (map (\<lambda>(k, v). Upsert T k v) items) st =
     (case T of
        Technologies \<Rightarrow> st\<lparr>db_technologies := merge_counter items (db_technologies st)\<rparr>
      | Locations \<Rightarrow> st\<lparr>db_locations := merge_counter items (db_locations st)\<rparr>
      | Salaries \<Rightarrow> st\<lparr>db_salaries := merge_counter items (db_salaries st)\<rparr>
      | Job_titles \<Rightarrow> st\<lparr>db_job_titles := merge_counter items (db_job_titles st)\<rparr>)"
proof (induction items arbitrary: st)
  case Nil
  then show ?case by (cases T) (simp_all add: merge_counter_def)
next
  case (Cons kv items)
  then show ?case by (cases T; cases kv) (simp_all add: merge_counter_def)
qed

lemma fold_execute_posts:
  "fold execute (map (\<lambda>post. Insert_post src post) posts) st =
     st\<lparr>db_job_posts := db_job_posts st @ map (\<lambda>post. (src, post)) posts\<rparr>"
  by (induction posts arbitrary: st) simp_all

lemma fold_execute_update_db:
  "fold execute (update_db_statements a) st =
     \<lparr>db_technologies = merge_counter (technologies a) (db_technologies st),
      db_locations = merge_counter (locations a) (db_locations st),
      db_salaries = merge_counter (salary_ranges a) (db_salaries st),
      db_job_titles = merge_counter (job_titles a) (db_job_titles st),
      db_job_posts = db_job_posts st @ map (\<lambda>post. (''Hacker News'', post)) (job_posts a)\<rparr>"
  by (simp add: update_db_statements_def fold_execute_upserts fold_execute_posts)

lemma run_transaction_None: "run_transaction None script st = Inr (fold execute script st)"
  by (induction script arbitrary: st) simp_all

lemma run_transaction_Some:
  "run_transaction (Some n) script st =
     (if n \<le> length script then Inl Sqlite3_Error else Inr (fold execute script st))"
proof (induction script arbitrary: n st)
  case Nil
  then show ?case by simp
next
  case (Cons q qs)
  then show ?case by (cases n) simp_all
qed

lemma update_db_None:
  "update_db None (a, st) = (None, a, fold execute (update_db_statements a) st)"
  by (simp add: update_db_def run_transaction_None)

lemma update_db_Some:
  "update_db (Some n) (a, st) =
     (if n \<le> length (update_db_statements a) then (Some Sqlite3_Error, a, st)
      else (None, a, fold execute (update_db_statements a) st))"
  by (simp add: update_db_def run_transaction_Some)

lemma update_db_cases:
  "update_db fault (a, st) = (Some Sqlite3_Error, a, st)
   \<or> update_db fault (a, st) = (None, a, fold execute (update_db_statements a) st)"
  by (cases fault) (simp_all add: update_db_None update_db_Some)


lemma db_technologies_merged:
  "dict_ok (technologies a) \<Longrightarrow>
   map_of (db_technologies (store_after (update_db None (a, st)))) k =
     (case map_of (technologies a) k of None \<Rightarrow> map_of (db_technologies st) k
      | Some v \<Rightarrow> Some (case map_of (db_technologies st) k of None \<Rightarrow> v | Some c \<Rightarrow> c + v))"
  by (simp add: store_after_def update_db_None fold_execute_update_db map_of_merge_counter dict_ok_def)

lemma db_locations_merged:
  "dict_ok (locations a) \<Longrightarrow>
   map_of (db_locations (store_after (update_db None (a, st)))) k =
     (case map_of (locations a) k of None \<Rightarrow> map_of (db_locations st) k
      | Some v \<Rightarrow> Some (case map_of (db_locations st) k of None \<Rightarrow> v | Some c \<Rightarrow> c + v))"
  by (simp add: store_after_def update_db_None fold_execute_update_db map_of_merge_counter dict_ok_def)

lemma db_salaries_merged:
  "dict_ok (salary_ranges a) \<Longrightarrow>
   map_of (db_salaries (store_after (update_db None (a, st)))) k =
     (case map_of (salary_ranges a) k of None \<Rightarrow> map_of (db_salaries st) k
      | Some v \<Rightarrow> Some (case map_of (db_salaries st) k of None \<Rightarrow> v | Some c \<Rightarrow> c + v))"
  by (simp add: store_after_def update_db_None fold_execute_update_db map_of_merge_counter dict_ok_def)

lemma db_job_titles_merged:
  "dict_ok (job_titles a) \<Longrightarrow>
   map_of (db_job_titles (store_after (update_db None (a, st)))) k =
     (case map_of (job_titles a) k of None \<Rightarrow> map_of (db_job_titles st) k
      | Some v \<Rightarrow> Some (case map_of (db_job_titles st) k of None \<Rightarrow> v | Some c \<Rightarrow> c + v))"
  by (simp add: store_after_def update_db_None fold_execute_update_db map_of_merge_counter dict_ok_def)

text \<open>
  C2: the merge of \<open>_update_db\<close> is an upsert with addition, never an overwrite. For an
  analyzer whose four counters are dicts, a merge that the store accepts leaves under
  every key of a counter the stored count plus the counter's count (the counter's count
  alone where the key was not stored), and leaves every other stored key as it was.
  Merging technologies with python at 3 into the empty store stores 3 for "python";
  merging technologies with python at 2 into the result stores 5.
\<close>

theorem merge_additive:
  assumes "analyzer_ok a"
    and "dict_ok (technologies a1)" and "map_of (technologies a1) ''python'' = Some 3"
    and "dict_ok (technologies a2)" and "map_of (technologies a2) ''python'' = Some 2"
    and "st1 = store_after (update_db None (a1, empty_store))"
    and "st2 = store_after (update_db None (a2, st1))"
  shows "raised (update_db None (a, st)) = None
     \<and> map_of (db_technologies (store_after (update_db None (a, st)))) k =
         (case map_of (technologies a) k of None \<Rightarrow> map_of (db_technologies st) k
          | Some v \<Rightarrow> Some (case map_of (db_technologies st) k of None \<Rightarrow> v | Some c \<Rightarrow> c + v))
     \<and> map_of (db_locations (store_after (update_db None (a, st)))) k =
         (case map_of (locations a) k of None \<Rightarrow> map_of (db_locations st) k
          | Some v \<Rightarrow> Some (case map_of (db_locations st) k of None \<Rightarrow> v | Some c \<Rightarrow> c + v))
     \<and> map_of (db_salaries (store_after (update_db None (a, st)))) k =
         (case map_of (salary_ranges a) k of None \<Rightarrow> map_of (db_salaries st) k
          | Some v \<Rightarrow> Some (case map_of (db_salaries st) k of None \<Rightarrow> v | Some c \<Rightarrow> c + v))
     \<and> map_of (db_job_titles (store_after (update_db None (a, st)))) k =
         (case map_of (job_titles a) k of None \<Rightarrow> map_of (db_job_titles st) k
          | Some v \<Rightarrow> Some (case map_of (db_job_titles st) k of None \<Rightarrow> v | Some c \<Rightarrow> c + v))
     \<and> map_of (db_technologies st1) ''python'' = Some 3
     \<and> map_of (db_technologies st2) ''python'' = Some 5"
proof -
  have e: "raised (update_db None (a, st)) = None"
    by (simp add: raised_def update_db_None)
  have s1: "map_of (db_technologies st1) ''python'' = Some 3"
    unfolding assms(6) using assms(2,3)
    by (simp add: db_technologies_merged empty_store_def)
  have s2: "map_of (db_technologies st2) ''python'' = Some 5"
    unfolding assms(7) using assms(4,5) s1
    by (simp add: db_technologies_merged)
  from assms(1) have ok: "dict_ok (technologies a)" "dict_ok (locations a)"
    "dict_ok (salary_ranges a)" "dict_ok (job_titles a)"
    by (simp_all add: analyzer_ok_def)
  show ?thesis
    using e s1 s2 db_technologies_merged [OF ok(1)] db_locations_merged [OF ok(2)]
      db_salaries_merged [OF ok(3)] db_job_titles_merged [OF ok(4)]
    by simp
qed

theorem merge_additive_witness:
  "analyzer_ok new_analyzer
   \<and> dict_ok [(''python'', 3::int)] \<and> map_of [(''python'', 3::int)] ''python'' = Some 3
   \<and> dict_ok [(''python'', 2::int)] \<and> map_of [(''python'', 2::int)] ''python'' = Some 2
   \<and> map_of (db_technologies (store_after
         (update_db None (new_analyzer\<lparr>technologies := [(''python'', 3)]\<rparr>, empty_store))))
        ''python'' = Some 3
   \<and> map_of (db_technologies (store_after
         (update_db None (new_analyzer\<lparr>technologies := [(''python'', 2)]\<rparr>,
            store_after (update_db None (new_analyzer\<lparr>technologies := [(''python'', 3)]\<rparr>,
              empty_store))))))
        ''python'' = Some 5
   \<and> db_technologies (store_after
         (update_db None (new_analyzer\<lparr>technologies := [(''python'', 2)]\<rparr>,
            store_after (update_db None (new_analyzer\<lparr>technologies := [(''python'', 3)]\<rparr>,
              empty_store)))))
       = [(''python'', 5)]"
proof -
  let ?a1 = "new_analyzer\<lparr>technologies := [(''python'', 3)]\<rparr>"
  let ?a2 = "new_analyzer\<lparr>technologies := [(''python'', 2)]\<rparr>"
  have ok: "analyzer_ok new_analyzer" by code_simp
  have d1: "dict_ok (technologies ?a1)" by code_simp
  have p1: "map_of (technologies ?a1) ''python'' = Some 3" by code_simp
  have d2: "dict_ok (technologies ?a2)" by code_simp
  have p2: "map_of (technologies ?a2) ''python'' = Some 2" by code_simp
  note r = merge_additive [OF ok d1 p1 d2 p2 refl refl]
  have r1: "map_of (db_technologies (store_after (update_db None (?a1, empty_store)))) ''python'' = Some 3"
    using r by blast
  have r2: "map_of (db_technologies (store_after (update_db None (?a2,
            store_after (update_db None (?a1, empty_store)))))) ''python'' = Some 5"
    using r by blast
  have r3: "db_technologies (store_after (update_db None (?a2,
            store_after (update_db None (?a1, empty_store))))) = [(''python'', 5)]"
    by code_simp
  have q1: "dict_ok [(''python'', 3::int)]" by code_simp
  have q2: "map_of [(''python'', 3::int)] ''python'' = Some 3" by simp
  have q3: "dict_ok [(''python'', 2::int)]" by code_simp
  have q4: "map_of [(''python'', 2::int)] ''python'' = Some 2" by simp
  show ?thesis using ok q1 q2 q3 q4 r1 r2 r3 by blast
qed

subsection \<open>Failing writes\<close>

text \<open>
  C8 (as stated): a failing write of the merge is reported as the failure kind
  \<open>PersistenceError\<close>. It is not: when the first write of a merge of the fresh analyzer
  into the empty store fails, what is raised is the \<open>sqlite3\<close> exception.
\<close>

theorem persistence_error_counterexample:
  "raised (update_db (Some 0) (new_analyzer, empty_store)) = Some Sqlite3_Error
   \<and> raised (update_db (Some 0) (new_analyzer, empty_store)) \<noteq> Some PersistenceError"
  by code_simp

text \<open>
  C8 (amended): if a write of the merge step fails, the exception of the store driver
  reaches the caller as it was raised, and is no \<open>PersistenceError\<close>; the in-memory
  counters are unchanged by \<open>_update_db\<close> in every case; after a failure the store holds
  what it held before, so that merging again without a fault gives what the merge
  would have given. A fault at any of the statements or at the commit is such a
  failure.
\<close>

theorem failed_merge_leaves_state:
  "(raised (update_db fault (a, st)) = None
      \<or> raised (update_db fault (a, st)) = Some Sqlite3_Error)
   \<and> raised (update_db fault (a, st)) \<noteq> Some PersistenceError
   \<and> analyzer_after (update_db fault (a, st)) = a
   \<and> (raised (update_db fault (a, st)) \<noteq> None \<longrightarrow>
         store_after (update_db fault (a, st)) = st
       \<and> update_db None (analyzer_after (update_db fault (a, st)),
            store_after (update_db fault (a, st))) = update_db None (a, st))
   \<and> (fault = Some n \<and> n \<le> length (update_db_statements a) \<longrightarrow>
         update_db fault (a, st) = (Some Sqlite3_Error, a, st))"
  using update_db_cases [of fault a st]
  by (auto simp: raised_def analyzer_after_def store_after_def update_db_Some)

theorem failed_merge_leaves_state_witness:
  "(0::nat) \<le> length (update_db_statements new_analyzer)
   \<and> update_db (Some 0) (new_analyzer, empty_store) = (Some Sqlite3_Error, new_analyzer, empty_store)
   \<and> raised (update_db (Some 0) (new_analyzer, empty_store)) \<noteq> None
   \<and> store_after (update_db (Some 0) (new_analyzer, empty_store)) = empty_store
   \<and> analyzer_after (update_db (Some 0) (new_analyzer, empty_store)) = new_analyzer"
proof -
  have le: "(0::nat) \<le> length (update_db_statements new_analyzer)" by simp
  from failed_merge_leaves_state [of "Some 0" new_analyzer empty_store 0] le
  have u: "update_db (Some 0) (new_analyzer, empty_store) = (Some Sqlite3_Error, new_analyzer, empty_store)"
    by blast
  then have ne: "raised (update_db (Some 0) (new_analyzer, empty_store)) \<noteq> None"
    by (simp add: raised_def)
  from failed_merge_leaves_state [of "Some 0" new_analyzer empty_store 0] ne
  have s: "store_after (update_db (Some 0) (new_analyzer, empty_store)) = empty_store"
    by blast
  from failed_merge_leaves_state [of "Some 0" new_analyzer empty_store 0]
  have a: "analyzer_after (update_db (Some 0) (new_analyzer, empty_store)) = new_analyzer"
    by blast
  show ?thesis using le u ne s a by blast
qed

subsection \<open>The source label of stored posts\<close>

lemma job_posts_scrape_item: "job_posts (scrape_item item a) = job_posts a @ [post_text item]"
  by (simp add: scrape_item_def Let_def)

lemma job_posts_scrape_all:
  "job_posts (fold scrape_item items a) = job_posts a @ map post_text items"
  by (induction items arbitrary: a) (simp_all add: job_posts_scrape_item)

text \<open>
  C10: every row that \<open>_update_db\<close> appends to \<open>job_posts\<close> has the source
  "Hacker News", whichever scraper produced the text. Whatever postings of the four
  kinds were scraped, their texts are appended to the analyzer's \<open>job_posts\<close>; a merge
  that the store accepts appends one row per text, each with source "Hacker News"; a
  merge that fails appends nothing.
\<close>

theorem stored_source_is_hacker_news:
  assumes "a = fold scrape_item items b" and "st' = store_after (update_db fault (a, st))"
  shows "job_posts a = job_posts b @ map post_text items
     \<and> (raised (update_db fault (a, st)) = None \<longrightarrow>
           db_job_posts st' = db_job_posts st @ map (\<lambda>post. (''Hacker News'', post)) (job_posts a))
     \<and> (raised (update_db fault (a, st)) \<noteq> None \<longrightarrow> db_job_posts st' = db_job_posts st)
     \<and> (\<forall>row\<in>set (drop (length (db_job_posts st)) (db_job_posts st')). fst row = ''Hacker News'')"
proof -
  have jp: "job_posts a = job_posts b @ map post_text items"
    unfolding assms(1) by (rule job_posts_scrape_all)
  from update_db_cases [of fault a st] show ?thesis
  proof
    assume "update_db fault (a, st) = (Some Sqlite3_Error, a, st)"
    then show ?thesis using jp by (simp add: assms(2) raised_def store_after_def)
  next
    assume "update_db fault (a, st) = (None, a, fold execute (update_db_statements a) st)"
    then show ?thesis using jp
      by (auto simp: assms(2) raised_def store_after_def fold_execute_update_db)
  qed
qed

theorem stored_source_is_hacker_news_witness:
  "db_job_posts (store_after (update_db None
      (fold scrape_item
         [HN_comment ''acme is hiring'', Indeed_card ''python developer'' ''acme'' ''austin'' ''flask and sql'',
          LinkedIn_card ''data engineer'' ''initech'' ''berlin'',
          SO_listing ''backend developer'' ''globex'' [''go'', ''docker'']] new_analyzer,
       empty_store)))
    = [(''Hacker News'', ''acme is hiring''),
       (''Hacker News'', ''python developer at acme in austin. flask and sql''),
       (''Hacker News'', ''data engineer at initech in berlin''),
       (''Hacker News'', ''backend developer at globex. Skills: go, docker'')]
   \<and> raised (update_db None
      (fold scrape_item
         [HN_comment ''acme is hiring'', Indeed_card ''python developer'' ''acme'' ''austin'' ''flask and sql'',
          LinkedIn_card ''data engineer'' ''initech'' ''berlin'',
          SO_listing ''backend developer'' ''globex'' [''go'', ''docker'']] new_analyzer,
       empty_store)) = None"
proof -
  let ?items = "[HN_comment ''acme is hiring'', Indeed_card ''python developer'' ''acme'' ''austin'' ''flask and sql'',
          LinkedIn_card ''data engineer'' ''initech'' ''berlin'',
          SO_listing ''backend developer'' ''globex'' [''go'', ''docker'']]"
  let ?a = "fold scrape_item ?items new_analyzer"
  have e: "raised (update_db None (?a, empty_store)) = None"
    by (simp add: raised_def update_db_None)
  from stored_source_is_hacker_news [where fault = None and items = ?items and b = new_analyzer and st = empty_store, OF refl refl] e
  have "db_job_posts (store_after (update_db None (?a, empty_store)))
      = db_job_posts empty_store @ map (\<lambda>post. (''Hacker News'', post)) (job_posts ?a)"
    by blast
  moreover have "job_posts ?a = job_posts new_analyzer @ map post_text ?items"
    using stored_source_is_hacker_news [where fault = None and items = ?items and b = new_analyzer and st = empty_store, OF refl refl] by blast
  ultimately have "db_job_posts (store_after (update_db None (?a, empty_store)))
      = map (\<lambda>post. (''Hacker News'', post)) (map post_text ?items)"
    by (simp add: empty_store_def new_analyzer_def)
  then show ?thesis using e by simp
qed

subsection \<open>Order of the posts\<close>

lemma count_of_incr: "count_of (incr x d) k = (if k = x then count_of d x + 1 else count_of d k)"
  by (simp add: count_of_def map_of_incr)

lemma map_of_fold_incr:
  "map_of (fold incr ks d) k =
     (if k \<in> set ks then Some (count_of d k + int (count_list ks k)) else map_of d k)"
proof (induction ks arbitrary: d)
  case Nil
  then show ?case by simp
next
  case (Cons x xs)
  have "map_of (fold incr (x # xs) d) k = map_of (fold incr xs (incr x d)) k" by simp
  also have "\<dots> = (if k \<in> set xs then Some (count_of (incr x d) k + int (count_list xs k))
                    else map_of (incr x d) k)"
    by (rule Cons.IH)
  also have "\<dots> = (if k \<in> set (x # xs) then Some (count_of d k + int (count_list (x # xs) k))
                    else map_of d k)"
    by (auto simp: count_of_incr map_of_incr count_list_0_iff)
  finally show ?case .
qed

lemma fold_incr_mset:
  assumes "mset ks = mset ks'"
  shows "map_of (fold incr ks d) = map_of (fold incr ks' d)"
proof
  fix k
  from assms have s: "set ks = set ks'" by (rule mset_eq_setD)
  from assms have "count (mset ks) k = count (mset ks') k" by simp
  then have c: "count_list ks k = count_list ks' k" by (simp add: count_mset)
  show "map_of (fold incr ks d) k = map_of (fold incr ks' d) k"
    by (simp add: map_of_fold_incr s c)
qed

lemma mset_concat_map:
  assumes "mset ps = mset qs"
  shows "mset (concat (map f ps)) = mset (concat (map f qs))"
proof -
  have "mset (concat (map f xs)) = sum_mset (image_mset (\<lambda>x. mset (f x)) (mset xs))" for xs
    by (induction xs) simp_all
  with assms show ?thesis by simp
qed

lemma locations_step:
  "locations (analyze_post p a) = fold incr (location_signals p) (locations a)"
  by (simp add: locations_analyze_post location_signals_def split: list.split)

lemma job_titles_step:
  "job_titles (analyze_post p a) = fold incr (title_signals p) (job_titles a)"
  by (simp add: job_titles_analyze_post title_signals_def split: list.split)

lemma locations_all:
  "locations (analyze_all ps a) = fold incr (concat (map location_signals ps)) (locations a)"
  unfolding analyze_all_def
  by (induction ps arbitrary: a) (simp_all add: locations_step)

lemma salary_ranges_all:
  "salary_ranges (analyze_all ps a) = fold incr (concat (map salary_matches ps)) (salary_ranges a)"
  unfolding analyze_all_def
  by (induction ps arbitrary: a) (simp_all add: salary_ranges_analyze_post)

lemma job_titles_all:
  "job_titles (analyze_all ps a) = fold incr (concat (map title_signals ps)) (job_titles a)"
  unfolding analyze_all_def
  by (induction ps arbitrary: a) (simp_all add: job_titles_step)

lemma job_posts_all: "job_posts (analyze_all ps a) = job_posts a"
  unfolding analyze_all_def
  by (induction ps arbitrary: a) simp_all

lemma technologies_all:
  "dict_ok (technologies a) \<Longrightarrow>
   map fst (technologies (analyze_all ps a)) = map fst (technologies a)
   \<and> map_of (technologies (analyze_all ps a)) k =
       map_option (\<lambda>c. c + int (length (filter (\<lambda>p. k \<in> post_words p) ps)))
         (map_of (technologies a) k)"
proof (induction ps arbitrary: a)
  case Nil
  then show ?case by (simp add: analyze_all_def option.map_ident)
next
  case (Cons p ps)
  have keys: "map fst (technologies (analyze_post p a)) = map fst (technologies a)"
    by (rule technologies_closed(1) [OF Cons.prems])
  then have ok: "dict_ok (technologies (analyze_post p a))"
    using Cons.prems by (simp add: dict_ok_def)
  have unf: "analyze_all (p # ps) a = analyze_all ps (analyze_post p a)"
    by (simp add: analyze_all_def)
  show ?case
    unfolding unf using Cons.IH [OF ok] keys
    by (auto simp: technologies_closed(2) [OF Cons.prems] split: option.splits)
qed

text \<open>
  C6: for every list of posts and every permutation of it, analyzing the posts in
  either order from the same analyzer (whose \<open>technologies\<close> is a dict) ends with the
  same technology, location, salary and title counters: the same keys with the same
  counts.
\<close>

theorem order_independent:
  assumes "dict_ok (technologies a)" and "mset ps = mset qs"
  shows "map_of (technologies (analyze_all ps a)) = map_of (technologies (analyze_all qs a))
       \<and> map_of (locations (analyze_all ps a)) = map_of (locations (analyze_all qs a))
       \<and> map_of (salary_ranges (analyze_all ps a)) = map_of (salary_ranges (analyze_all qs a))
       \<and> map_of (job_titles (analyze_all ps a)) = map_of (job_titles (analyze_all qs a))"
proof (intro conjI)
  show "map_of (technologies (analyze_all ps a)) = map_of (technologies (analyze_all qs a))"
  proof
    fix k
    from assms(2) have "mset (filter (\<lambda>p. k \<in> post_words p) ps)
        = mset (filter (\<lambda>p. k \<in> post_words p) qs)"
      by simp
    then have "length (filter (\<lambda>p. k \<in> post_words p) ps)
        = length (filter (\<lambda>p. k \<in> post_words p) qs)"
      by (rule mset_eq_length)
    then show "map_of (technologies (analyze_all ps a)) k
        = map_of (technologies (analyze_all qs a)) k"
      using technologies_all [OF assms(1), of ps k] technologies_all [OF assms(1), of qs k]
      by simp
  qed
next
  show "map_of (locations (analyze_all ps a)) = map_of (locations (analyze_all qs a))"
    unfolding locations_all
    by (rule fold_incr_mset) (rule mset_concat_map [OF assms(2)])
next
  show "map_of (salary_ranges (analyze_all ps a)) = map_of (salary_ranges (analyze_all qs a))"
    unfolding salary_ranges_all
    by (rule fold_incr_mset) (rule mset_concat_map [OF assms(2)])
next
  show "map_of (job_titles (analyze_all ps a)) = map_of (job_titles (analyze_all qs a))"
    unfolding job_titles_all
    by (rule fold_incr_mset) (rule mset_concat_map [OF assms(2)])
qed

theorem order_independent_witness:
  "dict_ok (technologies new_analyzer)
   \<and> mset [''python role in austin $120k'', ''seeking go dev, based in berlin $95k'']
       = mset [''seeking go dev, based in berlin $95k'', ''python role in austin $120k'']
   \<and> map_of (technologies (analyze_all
        [''python role in austin $120k'', ''seeking go dev, based in berlin $95k''] new_analyzer))
     = map_of (technologies (analyze_all
        [''seeking go dev, based in berlin $95k'', ''python role in austin $120k''] new_analyzer))
   \<and> map_of (locations (analyze_all
        [''python role in austin $120k'', ''seeking go dev, based in berlin $95k''] new_analyzer))
     = map_of (locations (analyze_all
        [''seeking go dev, based in berlin $95k'', ''python role in austin $120k''] new_analyzer))
   \<and> map_of (salary_ranges (analyze_all
        [''python role in austin $120k'', ''seeking go dev, based in berlin $95k''] new_analyzer))
     = map_of (salary_ranges (analyze_all
        [''seeking go dev, based in berlin $95k'', ''python role in austin $120k''] new_analyzer))
   \<and> map_of (job_titles (analyze_all
        [''python role in austin $120k'', ''seeking go dev, based in berlin $95k''] new_analyzer))
     = map_of (job_titles (analyze_all
        [''seeking go dev, based in berlin $95k'', ''python role in austin $120k''] new_analyzer))
   \<and> salary_ranges (analyze_all
        [''python role in austin $120k'', ''seeking go dev, based in berlin $95k''] new_analyzer)
     = [(''120k'', 1), (''95k'', 1)]
   \<and> salary_ranges (analyze_all
        [''seeking go dev, based in berlin $95k'', ''python role in austin $120k''] new_analyzer)
     = [(''95k'', 1), (''120k'', 1)]"
proof -
  let ?p = "''python role in austin $120k''"
  let ?q = "''seeking go dev, based in berlin $95k''"
  have ok: "dict_ok (technologies new_analyzer)" by code_simp
  have m: "mset [?p, ?q] = mset [?q, ?p]" by (simp add: add.commute)
  note r = order_independent [OF ok m]
  have s1: "salary_ranges (analyze_all [?p, ?q] new_analyzer) = [(''120k'', 1), (''95k'', 1)]"
    by code_simp
  have s2: "salary_ranges (analyze_all [?q, ?p] new_analyzer) = [(''95k'', 1), (''120k'', 1)]"
    by code_simp
  show ?thesis using ok m r s1 s2 by blast
qed


subsection \<open>Counts never decrease\<close>

lemma key_has_entry: "k \<in> fst ` set d \<longleftrightarrow> (\<exists>c. map_of d k = Some c)"
  by (metis map_of_eq_None_iff not_Some_eq)

lemma grows_iff:
  "grows d d' \<longleftrightarrow> (\<forall>k c. map_of d k = Some c \<longrightarrow> (\<exists>c'. map_of d' k = Some c' \<and> c \<le> c'))"
proof
  assume g: "grows d d'"
  show "\<forall>k c. map_of d k = Some c \<longrightarrow> (\<exists>c'. map_of d' k = Some c' \<and> c \<le> c')"
  proof (intro allI impI)
    fix k c assume m: "map_of d k = Some c"
    then have "k \<in> set (map fst d)" using key_has_entry [of k d] by simp
    moreover from g
    have "\<forall>x\<in>set (map fst d). case map_of d' x of None \<Rightarrow> False | Some c' \<Rightarrow> count_of d x \<le> c'"
      unfolding grows_def list_all_iff .
    ultimately have "case map_of d' k of None \<Rightarrow> False | Some c' \<Rightarrow> count_of d k \<le> c'"
      by blast
    with m show "\<exists>c'. map_of d' k = Some c' \<and> c \<le> c'"
      by (auto simp: count_of_def split: option.splits)
  qed
next
  assume r: "\<forall>k c. map_of d k = Some c \<longrightarrow> (\<exists>c'. map_of d' k = Some c' \<and> c \<le> c')"
  show "grows d d'"
    unfolding grows_def list_all_iff
  proof
    fix k assume "k \<in> set (map fst d)"
    then obtain c where m: "map_of d k = Some c" using key_has_entry [of k d] by auto
    with r obtain c' where "map_of d' k = Some c'" "c \<le> c'" by blast
    with m show "case map_of d' k of None \<Rightarrow> False | Some c' \<Rightarrow> count_of d k \<le> c'"
      by (simp add: count_of_def)
  qed
qed

lemma grows_refl: "grows d d"
  by (simp add: grows_iff)

lemma grows_trans: "grows d d' \<Longrightarrow> grows d' d'' \<Longrightarrow> grows d d''"
  unfolding grows_iff by (meson order_trans)

lemma nonneg_iff: "nonneg d \<longleftrightarrow> (\<forall>(k, c)\<in>set d. 0 \<le> c)"
  by (simp add: nonneg_def list_all_iff)

lemma nonneg_count_of: "nonneg d \<Longrightarrow> 0 \<le> count_of d k"
  by (auto simp: nonneg_iff count_of_def split: option.splits dest: map_of_SomeD)

lemma nonneg_update: "nonneg d \<Longrightarrow> 0 \<le> v \<Longrightarrow> nonneg (AList.update k v d)"
  by (induction d) (auto simp: nonneg_def)

lemma nonneg_incr: "nonneg d \<Longrightarrow> nonneg (incr k d)"
  using nonneg_count_of [of d k] by (simp add: incr_def nonneg_update)

lemma grows_incr: "grows d (incr k d)"
  by (auto simp: grows_iff map_of_incr count_of_def)

lemma fold_nonneg:
  "(\<And>x d. nonneg d \<Longrightarrow> nonneg (f x d)) \<Longrightarrow> nonneg d \<Longrightarrow> nonneg (fold f xs d)"
  by (induction xs arbitrary: d) simp_all

lemma fold_grows:
  "(\<And>x d. grows d (f x d)) \<Longrightarrow> grows d (fold f xs d)"
proof (induction xs arbitrary: d)
  case Nil
  then show ?case by (simp add: grows_refl)
next
  case (Cons x xs)
  have "grows d (f x d)" by (rule Cons.prems)
  moreover have "grows (f x d) (fold f xs (f x d))" by (rule Cons.IH) (rule Cons.prems)
  ultimately show ?case by (simp add: grows_trans)
qed

lemma analyze_post_nonneg:
  assumes "analyzer_nonneg a"
  shows "analyzer_nonneg (analyze_post p a)"
proof -
  have t: "nonneg (technologies (analyze_post p a))"
    unfolding technologies_analyze_post
    using assms by (intro fold_nonneg) (simp_all add: nonneg_incr analyzer_nonneg_def)
  have l: "nonneg (locations (analyze_post p a))"
    unfolding locations_step
    using assms by (intro fold_nonneg) (simp_all add: nonneg_incr analyzer_nonneg_def)
  have s: "nonneg (salary_ranges (analyze_post p a))"
    unfolding salary_ranges_analyze_post
    using assms by (intro fold_nonneg) (simp_all add: nonneg_incr analyzer_nonneg_def)
  have j: "nonneg (job_titles (analyze_post p a))"
    unfolding job_titles_step
    using assms by (intro fold_nonneg) (simp_all add: nonneg_incr analyzer_nonneg_def)
  from t l s j show ?thesis by (simp add: analyzer_nonneg_def)
qed

lemma analyze_post_grows: "analyzer_grows a (analyze_post p a)"
proof -
  have t: "grows (technologies a) (technologies (analyze_post p a))"
    unfolding technologies_analyze_post
    by (intro fold_grows) (simp add: grows_incr grows_refl)
  have l: "grows (locations a) (locations (analyze_post p a))"
    unfolding locations_step by (intro fold_grows) (rule grows_incr)
  have s: "grows (salary_ranges a) (salary_ranges (analyze_post p a))"
    unfolding salary_ranges_analyze_post by (intro fold_grows) (rule grows_incr)
  have j: "grows (job_titles a) (job_titles (analyze_post p a))"
    unfolding job_titles_step by (intro fold_grows) (rule grows_incr)
  from t l s j show ?thesis by (simp add: analyzer_grows_def)
qed

lemma nonneg_upsert_add: "nonneg rows \<Longrightarrow> 0 \<le> v \<Longrightarrow> nonneg (upsert_add k v rows)"
  by (induction rows) (auto simp: nonneg_def)

lemma grows_upsert_add: "0 \<le> v \<Longrightarrow> grows rows (upsert_add k v rows)"
  by (auto simp: grows_iff map_of_upsert_add)

lemma merge_counter_Cons:
  "merge_counter ((k, v) # items) rows = merge_counter items (upsert_add k v rows)"
  by (simp add: merge_counter_def)

lemma nonneg_merge_counter:
  "nonneg items \<Longrightarrow> nonneg rows \<Longrightarrow> nonneg (merge_counter items rows)"
proof (induction items arbitrary: rows)
  case Nil
  then show ?case by (simp add: merge_counter_def)
next
  case (Cons kv items)
  obtain k v where kv: "kv = (k, v)" by (cases kv)
  from Cons.prems(1) kv have v: "0 \<le> v" and rest: "nonneg items" by (simp_all add: nonneg_def)
  show ?case
    unfolding kv merge_counter_Cons
    by (rule Cons.IH [OF rest]) (rule nonneg_upsert_add [OF Cons.prems(2) v])
qed

lemma grows_merge_counter:
  "nonneg items \<Longrightarrow> grows rows (merge_counter items rows)"
proof (induction items arbitrary: rows)
  case Nil
  then show ?case by (simp add: merge_counter_def grows_refl)
next
  case (Cons kv items)
  obtain k v where kv: "kv = (k, v)" by (cases kv)
  from Cons.prems kv have v: "0 \<le> v" and rest: "nonneg items" by (simp_all add: nonneg_def)
  have "grows rows (upsert_add k v rows)" by (rule grows_upsert_add [OF v])
  moreover have "grows (upsert_add k v rows) (merge_counter items (upsert_add k v rows))"
    by (rule Cons.IH [OF rest])
  ultimately show ?case unfolding kv merge_counter_Cons by (rule grows_trans)
qed

lemma store_grows_refl: "store_grows st st"
  by (simp add: store_grows_def grows_refl)

lemma analyzer_grows_refl: "analyzer_grows a a"
  by (simp add: analyzer_grows_def grows_refl)

lemma store_grows_trans: "store_grows s t \<Longrightarrow> store_grows t u \<Longrightarrow> store_grows s u"
  unfolding store_grows_def by (blast intro: grows_trans)

lemma analyzer_grows_trans: "analyzer_grows s t \<Longrightarrow> analyzer_grows t u \<Longrightarrow> analyzer_grows s u"
  unfolding analyzer_grows_def by (blast intro: grows_trans)

lemma merged_store_grows:
  "analyzer_nonneg a \<Longrightarrow> store_grows st (fold execute (update_db_statements a) st)"
  by (simp add: fold_execute_update_db store_grows_def analyzer_nonneg_def grows_merge_counter)

lemma merged_store_nonneg:
  "analyzer_nonneg a \<Longrightarrow> store_nonneg st \<Longrightarrow> store_nonneg (fold execute (update_db_statements a) st)"
  by (simp add: fold_execute_update_db store_nonneg_def analyzer_nonneg_def nonneg_merge_counter)

lemma step_invariant:
  assumes "analyzer_nonneg a" and "step op (a, st) = (a', st')"
  shows "analyzer_nonneg a' \<and> analyzer_grows a a' \<and> store_grows st st'
       \<and> (store_nonneg st \<longrightarrow> store_nonneg st')"
proof (cases op)
  case (Analyze post)
  with assms(2) have "a' = analyze_post post a" "st' = st" by simp_all
  then show ?thesis
    using assms(1) by (simp add: analyze_post_nonneg analyze_post_grows store_grows_refl)
next
  case (Merge fault)
  with assms(2) have s: "snd (update_db fault (a, st)) = (a', st')" by simp
  from update_db_cases [of fault a st] show ?thesis
  proof
    assume "update_db fault (a, st) = (Some Sqlite3_Error, a, st)"
    with s have "a' = a" "st' = st" by auto
    then show ?thesis using assms(1) by (simp add: analyzer_grows_refl store_grows_refl)
  next
    assume "update_db fault (a, st) = (None, a, fold execute (update_db_statements a) st)"
    with s have "a' = a" "st' = fold execute (update_db_statements a) st" by auto
    then show ?thesis
      using assms(1) by (simp add: analyzer_grows_refl merged_store_grows merged_store_nonneg)
  qed
qed

lemma session_invariant:
  "analyzer_nonneg b \<Longrightarrow> fold step ops (b, db) = (a, st) \<Longrightarrow>
   analyzer_nonneg a \<and> analyzer_grows b a \<and> store_grows db st
   \<and> (store_nonneg db \<longrightarrow> store_nonneg st)"
proof (induction ops arbitrary: b db)
  case Nil
  then show ?case by (simp add: analyzer_grows_refl store_grows_refl)
next
  case (Cons op ops)
  obtain b' db' where s: "step op (b, db) = (b', db')" by (cases "step op (b, db)")
  note first = step_invariant [OF Cons.prems(1) s]
  from Cons.prems(2) s have "fold step ops (b', db') = (a, st)" by simp
  with first have rest: "analyzer_nonneg a \<and> analyzer_grows b' a \<and> store_grows db' st
       \<and> (store_nonneg db' \<longrightarrow> store_nonneg st)"
    by (intro Cons.IH) simp_all
  from first rest show ?case
    by (blast intro: analyzer_grows_trans store_grows_trans)
qed

text \<open>
  C7: all counts are non-negative and no operation decreases one. Let a session start
  from an analyzer with non-negative counts (the fresh analyzer is one) and any store,
  and run any sequence of post analyses and merges, failing or not. Then the four
  in-memory counters hold non-negative counts before and after any further operation;
  so do the four stored tables if they did at the start; and the operation leaves every
  in-memory and every stored key in place with a count at least as large as before.
\<close>

theorem counts_never_decrease:
  assumes "analyzer_nonneg b" and "fold step ops (b, db) = (a, st)"
    and "step op (a, st) = (a', st')"
  shows "analyzer_nonneg new_analyzer
       \<and> analyzer_nonneg a \<and> analyzer_nonneg a'
       \<and> (store_nonneg db \<longrightarrow> store_nonneg st \<and> store_nonneg st')
       \<and> analyzer_grows a a' \<and> store_grows st st'
       \<and> analyzer_grows b a \<and> store_grows db st"
proof -
  have n: "analyzer_nonneg new_analyzer" by code_simp
  note inv = session_invariant [OF assms(1,2)]
  then have "analyzer_nonneg a" by blast
  note stp = step_invariant [OF this assms(3)]
  from n inv stp show ?thesis by blast
qed

lemma step_Merge_None:
  "step (Merge None) (a, st) = (a, fold execute (update_db_statements a) st)"
  by (simp add: update_db_None)

theorem counts_never_decrease_witness:
  "analyzer_nonneg new_analyzer \<and> store_nonneg empty_store
   \<and> analyzer_nonneg (fst (fold step [Analyze ''python dev in austin $120k'', Merge None]
        (new_analyzer, empty_store)))
   \<and> store_nonneg (snd (fold step [Analyze ''python dev in austin $120k'', Merge None]
        (new_analyzer, empty_store)))
   \<and> store_nonneg (snd (step (Merge None)
        (fold step [Analyze ''python dev in austin $120k'', Merge None]
           (new_analyzer, empty_store))))
   \<and> store_grows
        (snd (fold step [Analyze ''python dev in austin $120k'', Merge None]
           (new_analyzer, empty_store)))
        (snd (step (Merge None)
           (fold step [Analyze ''python dev in austin $120k'', Merge None]
              (new_analyzer, empty_store))))
   \<and> analyzer_grows
        (fst (fold step [Analyze ''python dev in austin $120k'', Merge None]
           (new_analyzer, empty_store)))
        (fst (step (Merge None)
           (fold step [Analyze ''python dev in austin $120k'', Merge None]
              (new_analyzer, empty_store))))
   \<and> db_locations (snd (fold step [Analyze ''python dev in austin $120k'', Merge None]
        (new_analyzer, empty_store))) = [(''austin'', 1)]
   \<and> db_locations (snd (step (Merge None)
        (fold step [Analyze ''python dev in austin $120k'', Merge None]
           (new_analyzer, empty_store)))) = [(''austin'', 2)]"
proof -
  let ?S = "fold step [Analyze ''python dev in austin $120k'', Merge None]
              (new_analyzer, empty_store)"
  have n: "analyzer_nonneg new_analyzer" by code_simp
  have e: "store_nonneg empty_store" by code_simp
  have f: "fold step [Analyze ''python dev in austin $120k'', Merge None]
              (new_analyzer, empty_store) = (fst ?S, snd ?S)" by (simp only: prod.collapse)
  have s: "step (Merge None) (fst ?S, snd ?S)
             = (fst (step (Merge None) ?S), snd (step (Merge None) ?S))"
    by (simp only: prod.collapse)
  note r = counts_never_decrease [OF n f s]
  have r1: "analyzer_nonneg (fst ?S)" using r by (elim conjE)
  have r2: "store_nonneg (snd ?S) \<and> store_nonneg (snd (step (Merge None) ?S))"
    using r e by (elim conjE) (rule mp)
  have r3: "analyzer_grows (fst ?S) (fst (step (Merge None) ?S))" using r by (elim conjE)
  have r4: "store_grows (snd ?S) (snd (step (Merge None) ?S))" using r by (elim conjE)
  have l: "locations (analyze_post ''python dev in austin $120k'' new_analyzer) = [(''austin'', 1)]"
    by code_simp
  have S: "?S = (analyze_post ''python dev in austin $120k'' new_analyzer,
      fold execute (update_db_statements (analyze_post ''python dev in austin $120k'' new_analyzer))
        empty_store)"
    by (simp add: update_db_None)
  have v1: "db_locations (snd ?S) = [(''austin'', 1)]"
    unfolding S by (simp add: fold_execute_update_db l empty_store_def merge_counter_def)
  have v2: "db_locations (snd (step (Merge None) ?S)) = [(''austin'', 2)]"
    unfolding S by (simp add: update_db_None fold_execute_update_db l empty_store_def merge_counter_def)
  show ?thesis
    by (intro conjI) (fact n e r1 r2 [THEN conjunct1] r2 [THEN conjunct2] r3 r4 v1 v2)+
qed

subsection \<open>Loading and merging again\<close>

lemma map_of_fold_update:
  "distinct (map fst rows) \<Longrightarrow>
   map_of (fold (\<lambda>(k, v). AList.update k v) rows d) k =
     (case map_of rows k of None \<Rightarrow> map_of d k | Some c \<Rightarrow> Some c)"
proof (induction rows arbitrary: d)
  case Nil
  then show ?case by simp
next
  case (Cons kv rows)
  obtain k0 v0 where kv: "kv = (k0, v0)" by (cases kv)
  from Cons.prems kv have d: "distinct (map fst rows)" and n: "k0 \<notin> fst ` set rows" by auto
  from n have none: "map_of rows k0 = None" by (simp add: map_of_eq_None_iff)
  show ?case
    using Cons.IH [OF d, of "AList.update k0 v0 d"] none
    by (auto simp: kv update_conv' split: option.splits)
qed

lemma dict_ok_fold_update:
  "dict_ok d \<Longrightarrow> dict_ok (fold (\<lambda>(k, v). AList.update k v) rows d)"
proof (induction rows arbitrary: d)
  case Nil
  then show ?case by simp
next
  case (Cons kv rows)
  have "dict_ok (AList.update (fst kv) (snd kv) d)"
    using Cons.prems by (simp add: dict_ok_def distinct_update)
  then show ?case using Cons.IH by (simp add: split_beta)
qed

lemma load_technologies_fold:
  "distinct (map fst rows) \<Longrightarrow>
   map fst (fold (\<lambda>(name, count) d. if name \<in> fst ` set d then AList.update name count d else d)
      rows d) = map fst d
   \<and> map_of (fold (\<lambda>(name, count) d. if name \<in> fst ` set d then AList.update name count d else d)
      rows d) k =
     (case map_of rows k of None \<Rightarrow> map_of d k
      | Some c \<Rightarrow> if k \<in> fst ` set d then Some c else None)"
proof (induction rows arbitrary: d)
  case Nil
  then show ?case by simp
next
  case (Cons kv rows)
  let ?G = "\<lambda>(name, count) d. if name \<in> fst ` set d then AList.update name count d else d"
  obtain k0 v0 where kv: "kv = (k0, v0)" by (cases kv)
  from Cons.prems kv have d: "distinct (map fst rows)" and n: "k0 \<notin> fst ` set rows" by auto
  from n have none: "map_of rows k0 = None" by (simp add: map_of_eq_None_iff)
  let ?d1 = "if k0 \<in> fst ` set d then AList.update k0 v0 d else d"
  have unf: "fold ?G (kv # rows) d = fold ?G rows ?d1" by (simp add: kv)
  have keys: "map fst ?d1 = map fst d" by (simp add: update_keys)
  then have dom: "fst ` set ?d1 = fst ` set d" by (metis list.set_map)
  have nk: "k0 \<notin> fst ` set d \<Longrightarrow> map_of d k0 = None" by (simp add: map_of_eq_None_iff)
  have m1: "map_of ?d1 k = (if k = k0 \<and> k0 \<in> fst ` set d then Some v0 else map_of d k)"
    by (simp add: update_conv')
  note IH = Cons.IH [OF d, of ?d1]
  have 1: "map fst (fold ?G (kv # rows) d) = map fst d"
    unfolding unf using IH keys by simp
  have 2: "map_of (fold ?G (kv # rows) d) k =
     (case map_of (kv # rows) k of None \<Rightarrow> map_of d k
      | Some c \<Rightarrow> if k \<in> fst ` set d then Some c else None)"
  proof (cases "k = k0")
    case True
    have "map_of (fold ?G rows ?d1) k0 = map_of ?d1 k0"
      using IH none by (simp add: True)
    then show ?thesis
      unfolding unf using nk by (simp add: True kv update_conv')
  next
    case False
    have "map_of (fold ?G rows ?d1) k = (case map_of rows k of None \<Rightarrow> map_of ?d1 k
      | Some c \<Rightarrow> if k \<in> fst ` set ?d1 then Some c else None)"
      using IH by blast
    then show ?thesis
      unfolding unf dom using False by (simp add: kv update_conv' split: option.split)
  qed
  from 1 2 show ?case by blast
qed

lemma load_from_db_None:
  "load_from_db None st a =
     load_job_posts st (load_job_titles st (load_salaries st (load_locations st
       (load_technologies st a))))"
  by (simp add: load_from_db_def)

lemma loaded_fields:
  "technologies (load_from_db None st a) = technologies (load_technologies st a)"
  "locations (load_from_db None st a) = locations (load_locations st a)"
  "salary_ranges (load_from_db None st a) = salary_ranges (load_salaries st a)"
  "job_titles (load_from_db None st a) = job_titles (load_job_titles st a)"
  "job_posts (load_from_db None st a) = map snd (db_job_posts st)"
  by (simp_all add: load_from_db_None load_job_posts_def load_job_titles_def load_salaries_def
      load_locations_def load_technologies_def)

lemma doubled: "map_of items k = Some c \<Longrightarrow> map_of rows k = Some c \<Longrightarrow> distinct (map fst items) \<Longrightarrow>
  map_of (merge_counter items rows) k = Some (2 * c)"
  by (simp add: map_of_merge_counter)



text \<open>
  C9: a load followed at once by a merge is not a no-op. For a store whose key columns
  are unique and an analyzer whose counters are dicts, \<open>load_from_db\<close> followed by
  \<open>_update_db\<close> (neither failing, no post analyzed in between) doubles the stored
  count of every technology that is a key of \<open>technologies\<close> and is in the store,
  leaves stored technologies that are not such keys as they are, and doubles every
  stored location, salary and title count. If one of the doubled counts is not 0, the
  store after the round trip differs from the store before.
\<close>

theorem load_then_merge_doubles:
  assumes "store_ok st" and "analyzer_ok a"
    and "a' = load_from_db None st a"
    and "st' = store_after (update_db None (a', st))"
  shows "raised (update_db None (a', st)) = None
     \<and> (\<forall>k c. k \<in> set (map fst (technologies a)) \<and> map_of (db_technologies st) k = Some c \<longrightarrow>
            map_of (db_technologies st') k = Some (2 * c))
     \<and> (\<forall>k. k \<notin> set (map fst (technologies a)) \<longrightarrow>
            map_of (db_technologies st') k = map_of (db_technologies st) k)
     \<and> (\<forall>k c. map_of (db_locations st) k = Some c \<longrightarrow> map_of (db_locations st') k = Some (2 * c))
     \<and> (\<forall>k c. map_of (db_salaries st) k = Some c \<longrightarrow> map_of (db_salaries st') k = Some (2 * c))
     \<and> (\<forall>k c. map_of (db_job_titles st) k = Some c \<longrightarrow> map_of (db_job_titles st') k = Some (2 * c))
     \<and> ((\<exists>k c. c \<noteq> 0 \<and> (k \<in> set (map fst (technologies a)) \<and> map_of (db_technologies st) k = Some c
              \<or> map_of (db_locations st) k = Some c \<or> map_of (db_salaries st) k = Some c
              \<or> map_of (db_job_titles st) k = Some c)) \<longrightarrow> st' \<noteq> st)"
proof -
  from assms(1) have sd: "distinct (map fst (db_technologies st))" "distinct (map fst (db_locations st))"
      "distinct (map fst (db_salaries st))" "distinct (map fst (db_job_titles st))"
    by (simp_all add: store_ok_def dict_ok_def)
  from assms(2) have ad: "dict_ok (technologies a)" "dict_ok (locations a)"
      "dict_ok (salary_ranges a)" "dict_ok (job_titles a)"
    by (simp_all add: analyzer_ok_def)
  have st': "st' = fold execute (update_db_statements a') st"
    by (simp add: assms(4) store_after_def update_db_None)
  have e: "raised (update_db None (a', st)) = None"
    by (simp add: raised_def update_db_None)
  have tk: "map fst (technologies a') = map fst (technologies a)"
    unfolding assms(3) loaded_fields load_technologies_def
    using load_technologies_fold [OF sd(1)] by simp
  then have td: "distinct (map fst (technologies a'))" using ad(1) by (simp add: dict_ok_def)
  have ld: "distinct (map fst (locations a'))"
    unfolding assms(3) loaded_fields load_locations_def
    using dict_ok_fold_update [OF ad(2)] by (simp add: dict_ok_def)
  have sld: "distinct (map fst (salary_ranges a'))"
    unfolding assms(3) loaded_fields load_salaries_def
    using dict_ok_fold_update [OF ad(3)] by (simp add: dict_ok_def)
  have jd: "distinct (map fst (job_titles a'))"
    unfolding assms(3) loaded_fields load_job_titles_def
    using dict_ok_fold_update [OF ad(4)] by (simp add: dict_ok_def)
  have t: "map_of (db_technologies st') k = Some (2 * c)"
    if "k \<in> set (map fst (technologies a))" "map_of (db_technologies st) k = Some c" for k c
  proof -
    have "map_of (technologies a') k = Some c"
      unfolding assms(3) loaded_fields load_technologies_def
      using load_technologies_fold [OF sd(1), of "technologies a" k] that by simp
    then show ?thesis
      unfolding st' fold_execute_update_db using that(2) td by (simp add: doubled)
  qed
  have u: "map_of (db_technologies st') k = map_of (db_technologies st) k"
    if "k \<notin> set (map fst (technologies a))" for k
  proof -
    from that tk have "k \<notin> fst ` set (technologies a')" by (metis list.set_map)
    then have "map_of (technologies a') k = None" by (simp add: map_of_eq_None_iff)
    then show ?thesis
      unfolding st' fold_execute_update_db using td by (simp add: map_of_merge_counter)
  qed
  have l: "map_of (db_locations st') k = Some (2 * c)"
    if "map_of (db_locations st) k = Some c" for k c
  proof -
    have "map_of (locations a') k = Some c"
      unfolding assms(3) loaded_fields load_locations_def
      using that by (simp add: map_of_fold_update [OF sd(2)])
    then show ?thesis
      unfolding st' fold_execute_update_db using that ld by (simp add: doubled)
  qed
  have s: "map_of (db_salaries st') k = Some (2 * c)"
    if "map_of (db_salaries st) k = Some c" for k c
  proof -
    have "map_of (salary_ranges a') k = Some c"
      unfolding assms(3) loaded_fields load_salaries_def
      using that by (simp add: map_of_fold_update [OF sd(3)])
    then show ?thesis
      unfolding st' fold_execute_update_db using that sld by (simp add: doubled)
  qed
  have j: "map_of (db_job_titles st') k = Some (2 * c)"
    if "map_of (db_job_titles st) k = Some c" for k c
  proof -
    have "map_of (job_titles a') k = Some c"
      unfolding assms(3) loaded_fields load_job_titles_def
      using that by (simp add: map_of_fold_update [OF sd(4)])
    then show ?thesis
      unfolding st' fold_execute_update_db using that jd by (simp add: doubled)
  qed
  have ne: "st' \<noteq> st"
    if "c \<noteq> 0" "k \<in> set (map fst (technologies a)) \<and> map_of (db_technologies st) k = Some c
              \<or> map_of (db_locations st) k = Some c \<or> map_of (db_salaries st) k = Some c
              \<or> map_of (db_job_titles st) k = Some c" for k c
  proof
    assume eq: "st' = st"
    from that(2) t l s j have "map_of (db_technologies st') k = Some (2 * c) \<and> map_of (db_technologies st) k = Some c
        \<or> map_of (db_locations st') k = Some (2 * c) \<and> map_of (db_locations st) k = Some c
        \<or> map_of (db_salaries st') k = Some (2 * c) \<and> map_of (db_salaries st) k = Some c
        \<or> map_of (db_job_titles st') k = Some (2 * c) \<and> map_of (db_job_titles st) k = Some c"
      by blast
    with eq have "2 * c = c" by auto
    with that(1) show False by simp
  qed
  from e t u l s j ne show ?thesis by blast
qed

theorem load_then_merge_doubles_witness:
  "store_ok sample_store \<and> analyzer_ok new_analyzer
   \<and> ''python'' \<in> set (map fst (technologies new_analyzer))
   \<and> map_of (db_technologies sample_store) ''python'' = Some 3
   \<and> map_of (db_technologies (store_after (update_db None
         (load_from_db None sample_store new_analyzer, sample_store)))) ''python'' = Some 6
   \<and> ''cobol'' \<notin> set (map fst (technologies new_analyzer))
   \<and> map_of (db_technologies (store_after (update_db None
         (load_from_db None sample_store new_analyzer, sample_store)))) ''cobol'' = Some 7
   \<and> map_of (db_locations sample_store) ''austin'' = Some 2
   \<and> map_of (db_locations (store_after (update_db None
         (load_from_db None sample_store new_analyzer, sample_store)))) ''austin'' = Some 4
   \<and> map_of (db_salaries (store_after (update_db None
         (load_from_db None sample_store new_analyzer, sample_store)))) ''120k'' = Some 2
   \<and> map_of (db_job_titles (store_after (update_db None
         (load_from_db None sample_store new_analyzer, sample_store)))) ''senior dev'' = Some 8
   \<and> store_after (update_db None
         (load_from_db None sample_store new_analyzer, sample_store)) \<noteq> sample_store"
proof -
  let ?st' = "store_after (update_db None
         (load_from_db None sample_store new_analyzer, sample_store))"
  have so: "store_ok sample_store" by code_simp
  have ao: "analyzer_ok new_analyzer" by code_simp
  have k: "''python'' \<in> set (map fst (technologies new_analyzer))" by code_simp
  have t: "map_of (db_technologies sample_store) ''python'' = Some 3" by code_simp
  have l: "map_of (db_locations sample_store) ''austin'' = Some 2" by code_simp
  have s: "map_of (db_salaries sample_store) ''120k'' = Some 1" by code_simp
  have j: "map_of (db_job_titles sample_store) ''senior dev'' = Some 4" by code_simp
  note r = load_then_merge_doubles [OF so ao refl refl]
  have nk: "''cobol'' \<notin> set (map fst (technologies new_analyzer))" by code_simp
  have "map_of (db_technologies sample_store) ''cobol'' = Some 7" by code_simp
  with r nk have c': "map_of (db_technologies ?st') ''cobol'' = Some 7" by metis
  from r k t have "map_of (db_technologies ?st') ''python'' = Some (2 * 3)" by blast
  then have t': "map_of (db_technologies ?st') ''python'' = Some 6" by simp
  from r l have "map_of (db_locations ?st') ''austin'' = Some (2 * 2)" by blast
  then have l': "map_of (db_locations ?st') ''austin'' = Some 4" by simp
  from r s have "map_of (db_salaries ?st') ''120k'' = Some (2 * 1)" by blast
  then have s': "map_of (db_salaries ?st') ''120k'' = Some 2" by simp
  from r j have "map_of (db_job_titles ?st') ''senior dev'' = Some (2 * 4)" by blast
  then have j': "map_of (db_job_titles ?st') ''senior dev'' = Some 8" by simp
  have "(2::int) \<noteq> 0 \<and> map_of (db_locations sample_store) ''austin'' = Some 2"
    using l by simp
  with r have ne: "?st' \<noteq> sample_store" by blast
  show ?thesis
    by (intro conjI) (fact so ao k t t' nk c' l l' s' j' ne)+
qed

subsection \<open>The patterns never match the empty string\<close>

text \<open>
  A match of any of the three patterns reads at least four characters, so the scan of
  \<open>findall_from\<close> always goes on behind a match with a shorter text.
\<close>

lemma rep_match_length:
  "(p', s') \<in> set (rep_match P lo hi p s) \<Longrightarrow> length s' + lo \<le> length s"
proof (induction s arbitrary: lo hi p)
  case Nil
  then show ?case by (simp split: if_splits)
next
  case (Cons x xs)
  from Cons.prems consider
      (more) "(p', s') \<in> set (rep_match P (lo - 1) (map_option (\<lambda>h. h - 1) hi) (Some x) xs)"
    | (stop) "lo = 0" "s' = x # xs"
    by (auto split: if_splits)
  then show ?case
  proof cases
    case more
    from Cons.IH [OF more] show ?thesis by simp
  next
    case stop
    then show ?thesis by simp
  qed
qed

lemma rmatch_length:
  "(p', s', g') \<in> set (rmatch r (p, s, g)) \<Longrightarrow> length s' + min_len r \<le> length s"
proof (induction r arbitrary: p s g p' s' g')
  case (Lit l)
  then have "lit_match l p s = Some (p', s')"
    by (cases "lit_match l p s") auto
  from lit_match_prefix [OF this] show ?case by simp
next
  case WordBoundary
  then show ?case by (simp split: if_splits)
next
  case (Repeat items lo hi)
  then show ?case by (auto dest: rep_match_length)
next
  case (Seq a b)
  from Seq.prems obtain p1 s1 g1 where
    1: "(p1, s1, g1) \<in> set (rmatch a (p, s, g))" and 2: "(p', s', g') \<in> set (rmatch b (p1, s1, g1))"
    by auto
  from Seq.IH(1) [OF 1] Seq.IH(2) [OF 2] show ?case by simp
next
  case (Alt a b)
  from Alt.prems have "(p', s', g') \<in> set (rmatch a (p, s, g)) \<or> (p', s', g') \<in> set (rmatch b (p, s, g))"
    by simp
  then show ?case using Alt.IH by (auto dest!: Alt.IH)
next
  case (Group n r)
  from Group.prems obtain g1 where "(p', s', g1) \<in> set (rmatch r (p, s, g))" by auto
  from Group.IH [OF this] show ?case by simp
qed

lemma patterns_min_len:
  "min_len location_pattern = 4" "min_len salary_pattern = 4" "min_len title_pattern = 6"
  by (simp_all add: location_pattern_def salary_pattern_def title_pattern_def)

lemma patterns_consume:
  assumes "r \<in> {location_pattern, salary_pattern, title_pattern}"
    and "rmatch r (p, s, []) = (p', s', g') # rest"
  shows "length s' < length s"
proof -
  from assms(2) have "(p', s', g') \<in> set (rmatch r (p, s, []))" by simp
  from rmatch_length [OF this] assms(1) show ?thesis
    by (auto simp: patterns_min_len)
qed

end
